theory Spec2Isabelle
  imports Main "HOL-Library.AList" "HOL-Library.Product_Lexorder"
begin

section \<open>JavaScript values, objects and errors\<close>

text \<open>
  The client (\<^verbatim>\<open>lib/index.js\<close>) passes strings, \<^verbatim>\<open>undefined\<close>, arrays and plain
  objects around. A plain object is an association list in insertion order, with unique
  keys. A value that is a string or \<^verbatim>\<open>undefined\<close>/\<^verbatim>\<open>null\<close> (a candidate version, an
  attribute that may be missing) is a \<open>string option\<close>.
\<close>

datatype jsval =
    JUndefined
  | JNull
  | JString string
  | JArray "jsval list"
  | JObject "(string \<times> jsval) list"

type_synonym jsobject = "(string \<times> jsval) list"

text \<open>Every \<^verbatim>\<open>throw\<close> of the source, and the rejections of its collaborators.\<close>

datatype error =
    UrlRequired
    \<comment> \<open>\<^verbatim>\<open>TypeError('URL is required!')\<close>\<close>
  | VersionNotSupported
    \<comment> \<open>\<^verbatim>\<open>Error('Version not supported by client')\<close>\<close>
  | UnreadableVersion
    \<comment> \<open>\<^verbatim>\<open>Error('Unable to read version in Capabilities')\<close>\<close>
  | NoOverlap string "string option"
    \<comment> \<open>\<^verbatim>\<open>Error('Version negociation has failed. Lowest version supported by server is '
         + detectedVersion + ' but candidateVersion was ' + candidateVersion)\<close>\<close>
  | RecoveryExhausted
    \<comment> \<open>\<^verbatim>\<open>Error('Version negociation has failed (recovery mode)')\<close>\<close>
  | InvalidVersion "string option"
    \<comment> \<open>\<^verbatim>\<open>TypeError('Invalid Version: ' + version)\<close>, thrown by the semver package\<close>
  | TransportFailure
    \<comment> \<open>a rejection of \<^verbatim>\<open>got\<close> or of \<^verbatim>\<open>xml.parse\<close>\<close>
  | NoParseCapabilities
    \<comment> \<open>\<^verbatim>\<open>TypeError\<close>: \<^verbatim>\<open>supportedVersions[version].parseCapabilities\<close> is not a function\<close>
  | NullishPropertyRead
    \<comment> \<open>\<^verbatim>\<open>TypeError\<close>: cannot read properties of \<^verbatim>\<open>undefined\<close> or \<^verbatim>\<open>null\<close>\<close>
  | ConfigurationError
    \<comment> \<open>a selector of a mapping schema uses a namespace prefix that is not declared\<close>

definition js_of_string :: "string option \<Rightarrow> jsval" where
  "js_of_string s = (case s of None \<Rightarrow> JUndefined | Some v \<Rightarrow> JString v)"

text \<open>JavaScript truthiness of a string-or-undefined: the empty string is falsy.\<close>

definition truthy :: "string option \<Rightarrow> bool" where
  "truthy s = (case s of None \<Rightarrow> False | Some v \<Rightarrow> v \<noteq> [])"

definition obj_get :: "jsobject \<Rightarrow> string \<Rightarrow> jsval option" where
  "obj_get obj k = map_of obj k"

text \<open>
  Assigning a property: an existing key keeps its place and takes the new value, a new
  key goes last (\<^const>\<open>AList.update\<close>). The spread \<^verbatim>\<open>{...target, ...src}\<close> assigns
  the properties of \<^verbatim>\<open>src\<close> in order.
\<close>

definition obj_spread :: "jsobject \<Rightarrow> jsobject \<Rightarrow> jsobject" where
  "obj_spread target src = fold (\<lambda>(k, v). AList.update k v) src target"

section \<open>The semver package\<close>

text \<open>
  Modelled from the spec: the npm package \<^verbatim>\<open>semver\<close> is a dependency, not part of the
  sources. The spec fixes version identifiers as \<^verbatim>\<open>MAJOR.MINOR.PATCH\<close> and the order as
  semantic-version order: three dot-separated numeric identifiers without leading
  zeros, compared lexicographically as numbers. \<^verbatim>\<open>semver.valid\<close> answers whether a
  string parses; \<^verbatim>\<open>semver.gt\<close> and \<^verbatim>\<open>semver.lt\<close> construct both versions first and
  throw a \<^verbatim>\<open>TypeError\<close> when one of them is not a valid version (so also for
  \<^verbatim>\<open>undefined\<close>).

  The package also reads a leading \<^verbatim>\<open>v\<close> or \<^verbatim>\<open>=\<close>, surrounding blanks, and pre-release
  and build suffixes. Such strings are outside the grammar that the spec fixes; here
  they are not valid versions.
\<close>

type_synonym semver = "nat \<times> nat \<times> nat"

text \<open>
  Modelled from the spec: a numeric identifier is a non-empty string of digits without a
  leading zero (\<^verbatim>\<open>0\<close> itself apart), and a version is three of them between dots.
\<close>

definition is_digit :: "char \<Rightarrow> bool" where
  "is_digit c = (c \<in> set ''0123456789'')"

definition digit_val :: "char \<Rightarrow> nat" where
  "digit_val c = of_char c - 48"

definition numeric_identifier :: "string \<Rightarrow> nat option" where
  "numeric_identifier s =
     (if s = [] \<or> \<not> list_all is_digit s \<or> (hd s = CHR ''0'' \<and> length s > 1) then None
      else Some (foldl (\<lambda>n c. 10 * n + digit_val c) 0 s))"

fun split_dots :: "string \<Rightarrow> string list" where
  "split_dots [] = [[]]"
| "split_dots (c # cs) =
     (if c = CHR ''.'' then [] # split_dots cs
      else (case split_dots cs of p # ps \<Rightarrow> (c # p) # ps | [] \<Rightarrow> [[c]]))"

definition semver_parse :: "string \<Rightarrow> semver option" where
  "semver_parse s =
     (case split_dots s of
        [a, b, c] \<Rightarrow>
          (case (numeric_identifier a, numeric_identifier b, numeric_identifier c) of
             (Some major, Some minor, Some patch) \<Rightarrow> Some (major, minor, patch)
           | _ \<Rightarrow> None)
      | _ \<Rightarrow> None)"

definition semver_valid :: "string \<Rightarrow> bool" where
  "semver_valid s = (semver_parse s \<noteq> None)"

text \<open>
  Modelled from the spec: \<^verbatim>\<open>new SemVer(version)\<close> throws for anything that is not a valid
  version string, and the comparisons construct both of their arguments.
\<close>

definition new_SemVer :: "string option \<Rightarrow> error + semver" where
  "new_SemVer v =
     (case v of
        None \<Rightarrow> Inl (InvalidVersion None)
      | Some s \<Rightarrow> (case semver_parse s of
                     None \<Rightarrow> Inl (InvalidVersion (Some s))
                   | Some sv \<Rightarrow> Inr sv))"

definition semver_gt :: "string option \<Rightarrow> string option \<Rightarrow> error + bool" where
  "semver_gt a b =
     (case new_SemVer a of
        Inl e \<Rightarrow> Inl e
      | Inr va \<Rightarrow> (case new_SemVer b of Inl e \<Rightarrow> Inl e | Inr vb \<Rightarrow> Inr (va > vb)))"

definition semver_lt :: "string option \<Rightarrow> string option \<Rightarrow> error + bool" where
  "semver_lt a b =
     (case new_SemVer a of
        Inl e \<Rightarrow> Inl e
      | Inr va \<Rightarrow> (case new_SemVer b of Inl e \<Rightarrow> Inl e | Inr vb \<Rightarrow> Inr (va < vb)))"

section \<open>lodash's findLast\<close>

text \<open>
  \<^verbatim>\<open>findLast(array, predicate)\<close> walks the array from its last element to its first and
  returns the first element the predicate accepts, \<^verbatim>\<open>undefined\<close> when there is none.
  A predicate that throws ends the walk with its exception.
\<close>

fun findLast_from :: "'a list \<Rightarrow> ('a \<Rightarrow> error + bool) \<Rightarrow> error + 'a option" where
  "findLast_from [] p = Inr None"
| "findLast_from (x # xs) p =
     (case p x of
        Inl e \<Rightarrow> Inl e
      | Inr True \<Rightarrow> Inr (Some x)
      | Inr False \<Rightarrow> findLast_from xs p)"

definition findLast :: "'a list \<Rightarrow> ('a \<Rightarrow> error + bool) \<Rightarrow> error + 'a option" where
  "findLast xs p = findLast_from (rev xs) p"

section \<open>The XML layer\<close>

text \<open>
  A parsed document is its root element. An element has a namespace URI, a local name,
  attributes, text content and child elements; \<^verbatim>\<open>root().name()\<close> is the local name and
  \<^verbatim>\<open>attr(k)\<close> looks an attribute up.
\<close>

datatype xnode =
  XNode (node_ns: string) (node_name: string) (node_attrs: "(string \<times> string) list")
        (node_text: string) (node_children: "xnode list")

definition attr :: "xnode \<Rightarrow> string \<Rightarrow> string option" where
  "attr n k = map_of (node_attrs n) k"

section \<open>The document mapper\<close>

text \<open>
  Modelled from the spec: \<^verbatim>\<open>lib/xml.js\<close> (\<^verbatim>\<open>xml.mapper\<close>, \<^verbatim>\<open>buildObject\<close>) is not
  among the sources. The spec describes it as an interpreter of a declarative mapping:
  a schema is an ordered collection of field mappings, each a selector evaluated
  relative to the context node, a destination key, a multiplicity flag and an optional
  reference to a named schema. A single mapping takes the first match and is omitted
  when there is none; a multi mapping gives the ordered list of all matches, the empty
  list when there is none. A value is the match's text content, or the object built
  from the match by the referenced schema. Namespace prefixes are resolved with the
  namespace table of the bundle; an undeclared prefix is a configuration error.

  A selector such as \<^verbatim>\<open>./wfs:FeatureTypeList/wfs:FeatureType\<close> is its sequence of child
  steps, each a prefix and a local name.
\<close>

type_synonym qname = "string \<times> string"
type_synonym selector = "qname list"
type_synonym nstable = "(string \<times> string) list"

text \<open>
  A mapping of the tables is a destination key alone (\<^verbatim>\<open>'./wfs:Name': 'name'\<close>) or an
  object \<^verbatim>\<open>{dest, multi, type}\<close>.
\<close>

datatype fieldmap =
    Plain string
  | Field (dest: string) (multi: bool) (type_ref: "string option")

type_synonym schema = "(selector \<times> fieldmap) list"
type_synonym schemas = "(string \<times> schema) list"

text \<open>
  Modelled from the spec: the evaluation of a selector, which the spec leaves to the XML
  layer. A step selects the child elements with the local name of the step in the
  namespace that the table gives for its prefix; a path selects through its steps, in
  document order. A selector without a step selects nothing.
\<close>

definition select_children :: "nstable \<Rightarrow> qname \<Rightarrow> xnode \<Rightarrow> xnode list" where
  "select_children ns step n =
     filter (\<lambda>ch. map_of ns (fst step) = Some (node_ns ch) \<and> node_name ch = snd step)
       (node_children n)"

fun select :: "nstable \<Rightarrow> selector \<Rightarrow> xnode \<Rightarrow> xnode list" where
  "select ns [] n = []"
| "select ns [step] n = select_children ns step n"
| "select ns (step # steps) n = concat (map (select ns steps) (select_children ns step n))"

text \<open>
  Modelled from the spec: \<^verbatim>\<open>buildObject(document, schemaName)\<close>. The object gets one key
  for each field mapping of the schema, in the order of the schema: a single mapping
  sets its key to the value of the first match and leaves it out when nothing matches,
  a multi mapping sets its key to the list of the values of all matches.
\<close>

function buildObject :: "nstable \<Rightarrow> schemas \<Rightarrow> xnode \<Rightarrow> string \<Rightarrow> jsval" where
  "buildObject ns types node schemaName =
     JObject
       (fold (\<lambda>(sel, fm) result.
                (case fm of
                   Plain d \<Rightarrow>
                     (case select ns sel node of
                        [] \<Rightarrow> result
                      | m # _ \<Rightarrow> AList.update d (JString (node_text m)) result)
                 | Field d mu ty \<Rightarrow>
                     (let vals = map (\<lambda>m. case ty of
                                             None \<Rightarrow> JString (node_text m)
                                           | Some t \<Rightarrow> buildObject ns types m t)
                                   (select ns sel node)
                      in if mu then AList.update d (JArray vals) result
                         else (case vals of [] \<Rightarrow> result | v # _ \<Rightarrow> AList.update d v result))))
          (case map_of types schemaName of None \<Rightarrow> [] | Some s \<Rightarrow> s) [])"
  by pat_completeness auto

text \<open>
  Modelled from the spec: a prefix that the namespace table does not declare is an error
  of the configuration, whatever the document.
\<close>

definition prefixes_declared :: "nstable \<Rightarrow> schemas \<Rightarrow> bool" where
  "prefixes_declared ns types =
     list_all (\<lambda>(name, sch). list_all (\<lambda>(sel, fm). list_all (\<lambda>(p, l). map_of ns p \<noteq> None) sel) sch)
       types"

definition mapper_buildObject :: "nstable \<Rightarrow> schemas \<Rightarrow> xnode \<Rightarrow> string \<Rightarrow> error + jsval" where
  "mapper_buildObject ns types xmlDoc schemaName =
     (if prefixes_declared ns types then Inr (buildObject ns types xmlDoc schemaName)
      else Inl ConfigurationError)"

text \<open>
  Modelled from the spec: \<^verbatim>\<open>xml.mapper(types)\<close> makes the mapper from the schemas alone,
  the lookup of schema name to schema of the spec. No namespace table comes with them,
  so the mapper has no declaration to resolve the prefixes of the selectors with.
\<close>

definition xml_mapper :: "schemas \<Rightarrow> xnode \<Rightarrow> string \<Rightarrow> error + jsval" where
  "xml_mapper types xmlDoc schemaName = mapper_buildObject [] types xmlDoc schemaName"

section \<open>The module of protocol version 1.0.0\<close>

text \<open>
  The module declares its namespace table \<^verbatim>\<open>ns\<close>, its schemas \<^verbatim>\<open>types\<close> and its result
  formats, and exports \<^verbatim>\<open>parseCapabilities\<close> only. \<^verbatim>\<open>parseCapabilities\<close> hands \<^verbatim>\<open>types\<close>
  to \<^verbatim>\<open>xml.mapper\<close>; nothing reads \<^verbatim>\<open>ns\<close>.
\<close>

definition ns :: nstable where
  "ns = [(''wfs'', ''http://www.opengis.net/wfs''), (''ogc'', ''http://www.opengis.net/ogc'')]"

definition types :: schemas where
  "types =
     [(''Main'',
         [([(''wfs'', ''Service'')], Field ''service'' False (Some ''Service'')),
          ([(''wfs'', ''FeatureTypeList''), (''wfs'', ''FeatureType'')],
             Field ''featureTypes'' True (Some ''FeatureType''))]),
      (''Service'',
         [([(''wfs'', ''Name'')], Plain ''name''),
          ([(''wfs'', ''Title'')], Plain ''title''),
          ([(''wfs'', ''Abstract'')], Plain ''abstract''),
          ([(''wfs'', ''Keywords'')], Plain ''keywords''),
          ([(''wfs'', ''OnlineResource'')], Plain ''location''),
          ([(''wfs'', ''Fees'')], Plain ''fees''),
          ([(''wfs'', ''AccessConstraints'')], Plain ''accessConstraints'')]),
      (''FeatureType'',
         [([(''wfs'', ''Name'')], Plain ''name''),
          ([(''wfs'', ''Title'')], Plain ''title''),
          ([(''wfs'', ''Abstract'')], Plain ''abstract''),
          ([(''wfs'', ''Keywords'')], Plain ''keywords'')])]"

definition parseCapabilities :: "xnode \<Rightarrow> error + jsval" where
  "parseCapabilities xmlDoc = xml_mapper types xmlDoc ''Main''"

section \<open>The client\<close>

definition supportedVersionsKeys :: "string list" where
  "supportedVersionsKeys = [''1.0.0'', ''1.1.0'', ''2.0.0'']"

text \<open>
  \<^verbatim>\<open>key in supportedVersions\<close>: the \<^verbatim>\<open>in\<close> operator looks at the object's own keys and
  then along its prototype chain. \<^verbatim>\<open>supportedVersions\<close> is an object literal, so its
  prototype is \<^verbatim>\<open>Object.prototype\<close>, whose property names are listed here.
\<close>

definition objectPrototypeKeys :: "string list" where
  "objectPrototypeKeys =
     [''constructor'', ''hasOwnProperty'', ''isPrototypeOf'', ''propertyIsEnumerable'',
      ''toLocaleString'', ''toString'', ''valueOf'', ''__proto__'', ''__defineGetter__'',
      ''__defineSetter__'', ''__lookupGetter__'', ''__lookupSetter__'']"

definition in_supportedVersions :: "string \<Rightarrow> bool" where
  "in_supportedVersions k =
     (k \<in> set supportedVersionsKeys \<or> k \<in> set objectPrototypeKeys)"

text \<open>
  The fields of a \<^verbatim>\<open>Client\<close> that the requests read. The user agent, the timeout and
  the connection agent configure the transport only.
\<close>

record client =
  url :: string
  queryStringToAppend :: jsobject
  version :: "string option"

text \<open>
  The world outside the client is the list of the queries it has sent, oldest first, and
  a server that answers each request knowing all of them: with a parsed document, or with
  a failure of the transport or of the XML parser.
\<close>

type_synonym world = "jsobject list"
type_synonym server = "world \<Rightarrow> error + xnode"

definition request_query :: "client \<Rightarrow> jsobject \<Rightarrow> jsobject" where
  "request_query c query =
     obj_spread (obj_spread [(''service'', JString ''WFS'')] (queryStringToAppend c)) query"

definition request :: "server \<Rightarrow> client \<Rightarrow> jsobject \<Rightarrow> world \<Rightarrow> (error + xnode) \<times> world" where
  "request srv c query w = (let w' = w @ [request_query c query] in (srv w', w'))"

definition capabilities_query :: "string option \<Rightarrow> jsobject" where
  "capabilities_query v = [(''request'', JString ''GetCapabilities''), (''version'', js_of_string v)]"

text \<open>
  The measure of the negotiation: no step is left for \<^verbatim>\<open>undefined\<close> or an invalid
  candidate after its probe, and a valid one may still go down through the supported
  versions below it.
\<close>

definition below :: "semver \<Rightarrow> string list" where
  "below v = filter (\<lambda>k. case semver_parse k of None \<Rightarrow> False | Some vk \<Rightarrow> vk < v) supportedVersionsKeys"

definition steps_left :: "string option \<Rightarrow> nat" where
  "steps_left cand =
     (case cand of
        None \<Rightarrow> 0
      | Some s \<Rightarrow> (case semver_parse s of None \<Rightarrow> 0 | Some v \<Rightarrow> Suc (length (below v))))"

function negociateVersion :: "server \<Rightarrow> client \<Rightarrow> string option \<Rightarrow> world \<Rightarrow> (error + string) \<times> world" where
  "negociateVersion srv c candidateVersion w =
     (case request srv c (capabilities_query candidateVersion) w of
        (Inl e, w1) \<Rightarrow> (Inl e, w1)
      | (Inr capabilities, w1) \<Rightarrow>
          if node_name capabilities = ''WFS_Capabilities'' then
            (case attr capabilities ''version'' of
               None \<Rightarrow> (Inl UnreadableVersion, w1)
             | Some detectedVersion \<Rightarrow>
                 if detectedVersion = [] \<or> \<not> semver_valid detectedVersion then
                   (Inl UnreadableVersion, w1)
                 else if Some detectedVersion = candidateVersion then (Inr detectedVersion, w1)
                 else
                   (case semver_gt (Some detectedVersion) candidateVersion of
                      Inl e \<Rightarrow> (Inl e, w1)
                    | Inr True \<Rightarrow> (Inl (NoOverlap detectedVersion candidateVersion), w1)
                    | Inr False \<Rightarrow>
                        if in_supportedVersions detectedVersion then (Inr detectedVersion, w1)
                        else
                          (case findLast supportedVersionsKeys
                                  (\<lambda>supportedVersion.
                                     semver_lt (Some supportedVersion) (Some detectedVersion)) of
                             Inl e \<Rightarrow> (Inl e, w1)
                           | Inr nextCandidateVersion \<Rightarrow>
                               negociateVersion srv c nextCandidateVersion w1)))
          else
            (case findLast supportedVersionsKeys
                    (\<lambda>supportedVersion. semver_lt (Some supportedVersion) candidateVersion) of
               Inl e \<Rightarrow> (Inl e, w1)
             | Inr nextCandidateVersion \<Rightarrow>
                 if truthy nextCandidateVersion then negociateVersion srv c nextCandidateVersion w1
                 else (Inl RecoveryExhausted, w1)))"
  by pat_completeness auto

section \<open>Construction and the capabilities operations\<close>

text \<open>
  The options of the constructor that the requests depend on. \<^verbatim>\<open>if (options.version)\<close>
  takes a missing or empty version as not given.
\<close>

record options =
  opt_queryStringToAppend :: "jsobject option"
  opt_version :: "string option"

definition new_Client :: "string option \<Rightarrow> options \<Rightarrow> error + client" where
  "new_Client u opts =
     (case u of
        None \<Rightarrow> Inl UrlRequired
      | Some address \<Rightarrow>
          if address = [] then Inl UrlRequired
          else
            (let qs = (case opt_queryStringToAppend opts of None \<Rightarrow> [] | Some q \<Rightarrow> q) in
             if truthy (opt_version opts) then
               (case opt_version opts of
                  None \<Rightarrow> Inr \<lparr>url = address, queryStringToAppend = qs, version = None\<rparr>
                | Some v \<Rightarrow>
                    if \<not> in_supportedVersions v then Inl VersionNotSupported
                    else Inr \<lparr>url = address, queryStringToAppend = qs, version = Some v\<rparr>)
             else Inr \<lparr>url = address, queryStringToAppend = qs, version = None\<rparr>))"

definition ensureVersion :: "server \<Rightarrow> client \<Rightarrow> world \<Rightarrow> (error + string) \<times> client \<times> world" where
  "ensureVersion srv c w =
     (case (truthy (version c), version c) of
        (True, Some v) \<Rightarrow> (Inr v, c, w)
      | _ \<Rightarrow>
          (case negociateVersion srv c (Some (last supportedVersionsKeys)) w of
             (Inl e, w1) \<Rightarrow> (Inl e, c, w1)
           | (Inr v, w1) \<Rightarrow> (Inr v, c\<lparr>version := Some v\<rparr>, w1)))"

text \<open>
  The modules \<^verbatim>\<open>versions/1.1.0\<close> and \<^verbatim>\<open>versions/2.0.0\<close> are not among the sources: their
  \<^verbatim>\<open>parseCapabilities\<close> are parameters. \<^verbatim>\<open>supportedVersions[version]\<close> is a module for a
  supported version, a value without \<^verbatim>\<open>parseCapabilities\<close> for a property name of
  \<^verbatim>\<open>Object.prototype\<close>, and \<^verbatim>\<open>undefined\<close> for any other key.
\<close>

definition module_parseCapabilities ::
  "(xnode \<Rightarrow> error + jsval) \<Rightarrow> (xnode \<Rightarrow> error + jsval) \<Rightarrow> string
     \<Rightarrow> error + (xnode \<Rightarrow> error + jsval)" where
  "module_parseCapabilities v110 v200 k =
     (if k = ''1.0.0'' then Inr parseCapabilities
      else if k = ''1.1.0'' then Inr v110
      else if k = ''2.0.0'' then Inr v200
      else if k \<in> set objectPrototypeKeys then Inl NoParseCapabilities
      else Inl NullishPropertyRead)"

definition capabilities ::
  "(xnode \<Rightarrow> error + jsval) \<Rightarrow> (xnode \<Rightarrow> error + jsval) \<Rightarrow> server \<Rightarrow> client \<Rightarrow> world
     \<Rightarrow> (error + jsval) \<times> client \<times> world" where
  "capabilities v110 v200 srv c w =
     (case ensureVersion srv c w of
        (Inl e, c1, w1) \<Rightarrow> (Inl e, c1, w1)
      | (Inr v, c1, w1) \<Rightarrow>
          (case request srv c1 (capabilities_query (Some v)) w1 of
             (Inl e, w2) \<Rightarrow> (Inl e, c1, w2)
           | (Inr xmlDoc, w2) \<Rightarrow>
               (case module_parseCapabilities v110 v200 v of
                  Inl e \<Rightarrow> (Inl e, c1, w2)
                | Inr parse \<Rightarrow> (parse xmlDoc, c1, w2))))"

text \<open>
  \<^verbatim>\<open>capabilities.featureTypes\<close>: reading a property of \<^verbatim>\<open>undefined\<close> or \<^verbatim>\<open>null\<close> throws; an
  object gives its value for the key, \<^verbatim>\<open>undefined\<close> when it has none (no prototype has a
  property of this name), and so do a string and an array.
\<close>

definition get_featureTypes :: "jsval \<Rightarrow> error + jsval" where
  "get_featureTypes caps =
     (case caps of
        JUndefined \<Rightarrow> Inl NullishPropertyRead
      | JNull \<Rightarrow> Inl NullishPropertyRead
      | JString s \<Rightarrow> Inr JUndefined
      | JArray xs \<Rightarrow> Inr JUndefined
      | JObject obj \<Rightarrow>
          Inr (case obj_get obj ''featureTypes'' of None \<Rightarrow> JUndefined | Some x \<Rightarrow> x))"

text \<open>\<^verbatim>\<open>x || []\<close>: an array or an object is truthy, also when empty.\<close>

definition js_truthy :: "jsval \<Rightarrow> bool" where
  "js_truthy v =
     (case v of JUndefined \<Rightarrow> False | JNull \<Rightarrow> False | JString s \<Rightarrow> s \<noteq> [] | _ \<Rightarrow> True)"

definition featureTypes ::
  "(xnode \<Rightarrow> error + jsval) \<Rightarrow> (xnode \<Rightarrow> error + jsval) \<Rightarrow> server \<Rightarrow> client \<Rightarrow> world
     \<Rightarrow> (error + jsval) \<times> client \<times> world" where
  "featureTypes v110 v200 srv c w =
     (case capabilities v110 v200 srv c w of
        (Inl e, c1, w1) \<Rightarrow> (Inl e, c1, w1)
      | (Inr caps, c1, w1) \<Rightarrow>
          (case get_featureTypes caps of
             Inl e \<Rightarrow> (Inl e, c1, w1)
           | Inr fts \<Rightarrow> (Inr (if js_truthy fts then fts else JArray []), c1, w1)))"

section \<open>Notions for the statements\<close>

text \<open>The query of the probe for a candidate, as \<^verbatim>\<open>_negociateVersion\<close> hands it to \<^verbatim>\<open>_request\<close>.\<close>

definition probe :: "client \<Rightarrow> string option \<Rightarrow> jsobject" where
  "probe c candidateVersion = request_query c (capabilities_query candidateVersion)"

text \<open>
  The spec's words for the fallback: a member of the supported versions strictly smaller
  than a version, and the largest such member.
\<close>

definition supported_below :: "string \<Rightarrow> semver \<Rightarrow> bool" where
  "supported_below k v =
     (k \<in> set supportedVersionsKeys \<and> (case semver_parse k of None \<Rightarrow> False | Some vk \<Rightarrow> vk < v))"

definition largest_supported_below :: "string \<Rightarrow> semver \<Rightarrow> bool" where
  "largest_supported_below m v =
     (supported_below m v \<and>
      (\<forall>k \<in> set supportedVersionsKeys. supported_below k v \<longrightarrow>
         (\<exists>vk vm. semver_parse k = Some vk \<and> semver_parse m = Some vm \<and> vk \<le> vm)))"

text \<open>
  One round of \<^verbatim>\<open>_negociateVersion\<close> seen from outside: what the body does with the
  response to its probe, either ending with a result or calling itself with the next
  candidate. \<open>negociateVersion_unfold\<close> proves that the function is this round followed
  by the recursive call.
\<close>

datatype decision = Finish "error + string" | Retry "string option"

definition decide :: "string option \<Rightarrow> error + xnode \<Rightarrow> decision" where
  "decide candidateVersion response =
     (case response of
        Inl e \<Rightarrow> Finish (Inl e)
      | Inr xmlDoc \<Rightarrow>
          if node_name xmlDoc = ''WFS_Capabilities'' then
            (case attr xmlDoc ''version'' of
               None \<Rightarrow> Finish (Inl UnreadableVersion)
             | Some detectedVersion \<Rightarrow>
                 if detectedVersion = [] \<or> \<not> semver_valid detectedVersion then
                   Finish (Inl UnreadableVersion)
                 else if Some detectedVersion = candidateVersion then Finish (Inr detectedVersion)
                 else
                   (case semver_gt (Some detectedVersion) candidateVersion of
                      Inl e \<Rightarrow> Finish (Inl e)
                    | Inr True \<Rightarrow> Finish (Inl (NoOverlap detectedVersion candidateVersion))
                    | Inr False \<Rightarrow>
                        if in_supportedVersions detectedVersion then Finish (Inr detectedVersion)
                        else
                          (case findLast supportedVersionsKeys
                                  (\<lambda>supportedVersion.
                                     semver_lt (Some supportedVersion) (Some detectedVersion)) of
                             Inl e \<Rightarrow> Finish (Inl e)
                           | Inr nextCandidateVersion \<Rightarrow> Retry nextCandidateVersion)))
          else
            (case findLast supportedVersionsKeys
                    (\<lambda>supportedVersion. semver_lt (Some supportedVersion) candidateVersion) of
               Inl e \<Rightarrow> Finish (Inl e)
             | Inr nextCandidateVersion \<Rightarrow>
                 if truthy nextCandidateVersion then Retry nextCandidateVersion
                 else Finish (Inl RecoveryExhausted)))"

text \<open>The selector of the feature types in the schema \<^verbatim>\<open>Main\<close> of version 1.0.0.\<close>

definition featureType_selector :: selector where
  "featureType_selector = [(''wfs'', ''FeatureTypeList''), (''wfs'', ''FeatureType'')]"

section \<open>Example clients and servers\<close>

definition example_client :: client where
  "example_client = \<lparr>url = ''http://example.org/wfs'', queryStringToAppend = [], version = None\<rparr>"

definition capabilities_document :: "string option \<Rightarrow> xnode" where
  "capabilities_document v =
     XNode ''http://www.opengis.net/wfs'' ''WFS_Capabilities''
       (case v of None \<Rightarrow> [] | Some s \<Rightarrow> [(''version'', s)]) [] []"

definition exception_document :: xnode where
  "exception_document = XNode ''http://www.opengis.net/ogc'' ''ServiceExceptionReport'' [] [] []"

definition always :: "xnode \<Rightarrow> server" where
  "always doc w = Inr doc"

text \<open>
  A server that answers the first request with a given document and every later one with
  a capabilities document of the version the request asks for.
\<close>

definition echo_after :: "xnode \<Rightarrow> server" where
  "echo_after first w =
     (case w of
        [q] \<Rightarrow> Inr first
      | _ \<Rightarrow> (case obj_get (last w) ''version'' of
                Some (JString v) \<Rightarrow> Inr (capabilities_document (Some v))
              | _ \<Rightarrow> Inr (capabilities_document None)))"

text \<open>
  A server that answers the first \<open>n\<close> requests with an exception report and every later
  one with a given document.
\<close>

definition exceptions_then :: "nat \<Rightarrow> xnode \<Rightarrow> server" where
  "exceptions_then n doc w = (if length w \<le> n then Inr exception_document else Inr doc)"

text \<open>A client with extra query parameters, and a client pinned to version 1.0.0.\<close>

definition extras_client :: client where
  "extras_client =
     \<lparr>url = ''http://example.org/wfs'',
      queryStringToAppend = [(''map'', JString ''/srv/wfs.map''), (''version'', JString ''1.1.0'')],
      version = None\<rparr>"


text \<open>A server that answers the first request with one document and every later one with another.\<close>

definition first_then :: "xnode \<Rightarrow> xnode \<Rightarrow> server" where
  "first_then a b w = (case w of [q] \<Rightarrow> Inr a | _ \<Rightarrow> Inr b)"

section \<open>Termination\<close>

subsection \<open>The mapper terminates\<close>

lemma child_smaller: "ch \<in> set (node_children n) \<Longrightarrow> size ch < size n"
  by (cases n) (auto simp: less_Suc_eq_le size_list_estimation')

lemma select_smaller: "m \<in> set (select tbl sel n) \<Longrightarrow> size m < size n"
proof (induction tbl sel n rule: select.induct)
  case (1 tbl n)
  then show ?case by simp
next
  case (2 tbl step n)
  then show ?case by (auto simp: select_children_def child_smaller)
next
  case (3 tbl step v va n)
  then obtain ch where "ch \<in> set (select_children tbl step n)" "m \<in> set (select tbl (v # va) ch)"
    by auto
  with 3 have "size m < size ch" "size ch < size n"
    by (auto simp: select_children_def child_smaller)
  then show ?case by simp
qed

termination buildObject
  by (relation "measure (\<lambda>(ns, types, node, schemaName). size node)")
     (simp_all add: select_smaller)

declare buildObject.simps [simp del]

subsection \<open>The negotiation terminates\<close>

lemma filter_length_mono:
  "(\<And>x. x \<in> set xs \<Longrightarrow> P x \<Longrightarrow> Q x) \<Longrightarrow> length (filter P xs) \<le> length (filter Q xs)"
  by (induction xs) auto

lemma filter_length_strict:
  "(\<And>x. x \<in> set xs \<Longrightarrow> P x \<Longrightarrow> Q x) \<Longrightarrow> y \<in> set xs \<Longrightarrow> Q y \<Longrightarrow> \<not> P y
   \<Longrightarrow> length (filter P xs) < length (filter Q xs)"
proof (induction xs)
  case Nil
  then show ?case by simp
next
  case (Cons x xs)
  have mono: "length (filter P xs) \<le> length (filter Q xs)"
    using Cons.prems(1) by (intro filter_length_mono) auto
  show ?case
  proof (cases "y = x")
    case True
    with Cons.prems mono show ?thesis by simp
  next
    case False
    with Cons.prems have "y \<in> set xs" by simp
    with Cons have "length (filter P xs) < length (filter Q xs)" by simp
    with Cons.prems(1)[of x] show ?thesis by auto
  qed
qed

lemma findLast_from_Some:
  "findLast_from xs p = Inr (Some x) \<Longrightarrow> x \<in> set xs \<and> p x = Inr True"
  by (induction xs) (auto split: sum.splits bool.splits if_splits)

lemma findLast_Some: "findLast xs p = Inr (Some x) \<Longrightarrow> x \<in> set xs \<and> p x = Inr True"
  unfolding findLast_def using findLast_from_Some [of "rev xs" p x] by simp

lemma semver_lt_True:
  "semver_lt (Some a) b = Inr True \<Longrightarrow>
     \<exists>va s vb. semver_parse a = Some va \<and> b = Some s \<and> semver_parse s = Some vb \<and> va < vb"
  by (auto simp: semver_lt_def new_SemVer_def split: option.splits sum.splits)

lemma semver_gt_False:
  "semver_gt (Some a) b = Inr False \<Longrightarrow>
     \<exists>va s vb. semver_parse a = Some va \<and> b = Some s \<and> semver_parse s = Some vb \<and> va \<le> vb"
  by (auto simp: semver_gt_def new_SemVer_def split: option.splits sum.splits)

lemma below_less:
  assumes "k \<in> set supportedVersionsKeys" "semver_parse k = Some vk" "vk < vc"
  shows "length (below vk) < length (below vc)"
  unfolding below_def
  using assms by (intro filter_length_strict [where y = k]) (auto split: option.splits)

lemma steps_left_next:
  assumes "k \<in> set supportedVersionsKeys" "semver_parse k = Some vk"
    and "semver_parse s = Some vc" "vk < vc"
  shows "steps_left (Some k) < steps_left (Some s)"
  using below_less [OF assms(1,2,4)] assms by (simp add: steps_left_def)

termination negociateVersion
proof (relation "measure (\<lambda>(srv, c, cand, w). steps_left cand)", goal_cases)
  case 1
  show ?case by simp
next
  case (2 srv c cand w x1 w1 caps d b nxt)
  from 2 have gt: "semver_gt (Some d) cand = Inr False" by simp
  from semver_gt_False [OF gt] obtain vd s vc where vd: "semver_parse d = Some vd"
    and s: "cand = Some s" and vc: "semver_parse s = Some vc" and le: "vd \<le> vc"
    by blast
  show ?case
  proof (cases nxt)
    case None
    with s vc show ?thesis by (simp add: steps_left_def)
  next
    case (Some k)
    with 2 have fl:
      "findLast supportedVersionsKeys (\<lambda>sv. semver_lt (Some sv) (Some d)) = Inr (Some k)"
      by simp
    from findLast_Some [OF fl] have k: "k \<in> set supportedVersionsKeys"
      and lt: "semver_lt (Some k) (Some d) = Inr True" by auto
    from semver_lt_True [OF lt] vd obtain vk where vk: "semver_parse k = Some vk" "vk < vd"
      by force
    from vk(2) le have "vk < vc" by (rule less_le_trans)
    with k vk(1) vc have "steps_left (Some k) < steps_left (Some s)"
      by (intro steps_left_next)
    with Some s show ?thesis by simp
  qed
next
  case (3 srv c cand w x1 w1 caps nxt)
  then obtain k where nxt: "nxt = Some k" by (cases nxt) (auto simp: truthy_def)
  with 3 have fl:
    "findLast supportedVersionsKeys (\<lambda>sv. semver_lt (Some sv) cand) = Inr (Some k)"
    by simp
  from findLast_Some [OF fl] have k: "k \<in> set supportedVersionsKeys"
    and lt: "semver_lt (Some k) cand = Inr True" by auto
  from semver_lt_True [OF lt] obtain vk s vc where "semver_parse k = Some vk" "cand = Some s"
    "semver_parse s = Some vc" "vk < vc" by blast
  with k nxt show ?case using steps_left_next [of k vk s vc] by simp
qed

text \<open>The equation of the function is unfolded one call at a time, by hand.\<close>

declare negociateVersion.simps [simp del]

section \<open>Properties of the negotiation\<close>

lemma request_probe:
  "request srv c (capabilities_query cand) w = (srv (w @ [probe c cand]), w @ [probe c cand])"
  by (simp add: request_def probe_def Let_def)

lemma semver_parse_Nil: "semver_parse [] = None"
  by (simp add: semver_parse_def)

lemma semver_gt_parsed:
  "semver_parse a = Some va \<Longrightarrow> semver_parse b = Some vb \<Longrightarrow>
     semver_gt (Some a) (Some b) = Inr (vb < va)"
  by (simp add: semver_gt_def new_SemVer_def)

lemma semver_lt_parsed:
  "semver_parse a = Some va \<Longrightarrow> semver_parse b = Some vb \<Longrightarrow>
     semver_lt (Some a) (Some b) = Inr (va < vb)"
  by (simp add: semver_lt_def new_SemVer_def)

lemma keys_parse:
  "semver_parse ''1.0.0'' = Some (1, 0, 0)"
  "semver_parse ''1.1.0'' = Some (1, 1, 0)"
  "semver_parse ''2.0.0'' = Some (2, 0, 0)"
  by (simp_all add: semver_parse_def numeric_identifier_def is_digit_def digit_val_def)

lemma prototype_keys_invalid: "k \<in> set objectPrototypeKeys \<Longrightarrow> semver_parse k = None"
  by (auto simp: objectPrototypeKeys_def semver_parse_def)

lemma in_supportedVersions_valid:
  "semver_parse d = Some vd \<Longrightarrow> in_supportedVersions d = (d \<in> set supportedVersionsKeys)"
  using prototype_keys_invalid [of d] by (auto simp: in_supportedVersions_def)

lemma findLast_keys:
  assumes "semver_parse d = Some vd"
  shows "findLast supportedVersionsKeys (\<lambda>k. semver_lt (Some k) (Some d)) =
           Inr (if (2, 0, 0) < vd then Some ''2.0.0''
                else if (1, 1, 0) < vd then Some ''1.1.0''
                else if (1, 0, 0) < vd then Some ''1.0.0'' else None)"
  using assms
  by (simp add: findLast_def supportedVersionsKeys_def semver_lt_parsed keys_parse)

lemma supported_below_cases:
  "supported_below k v \<longleftrightarrow>
     (k = ''1.0.0'' \<and> (1, 0, 0) < v) \<or> (k = ''1.1.0'' \<and> (1, 1, 0) < v) \<or> (k = ''2.0.0'' \<and> (2, 0, 0) < v)"
  by (auto simp: supported_below_def supportedVersionsKeys_def keys_parse)

lemma keys_ascending: "((1, 0, 0) :: semver) < (1, 1, 0)" "((1, 1, 0) :: semver) < (2, 0, 0)"
  by simp_all

lemma findLast_keys_largest:
  assumes "semver_parse d = Some vd" and "largest_supported_below m vd"
  shows "findLast supportedVersionsKeys (\<lambda>k. semver_lt (Some k) (Some d)) = Inr (Some m)"
proof -
  from assms(2) have m: "supported_below m vd"
    and mx: "\<And>k. supported_below k vd \<Longrightarrow>
               \<exists>vk vm. semver_parse k = Some vk \<and> semver_parse m = Some vm \<and> vk \<le> vm"
    by (auto simp: largest_supported_below_def supported_below_def)
  from m consider "m = ''1.0.0''" "(1, 0, 0) < vd" | "m = ''1.1.0''" "(1, 1, 0) < vd"
    | "m = ''2.0.0''" "(2, 0, 0) < vd"
    by (auto simp: supported_below_cases)
  then show ?thesis
  proof cases
    case 1
    have "\<not> (1, 1, 0) < vd" using mx [of "''1.1.0''"] 1 
      by (auto simp: supported_below_cases keys_parse)
    moreover have "\<not> (2, 0, 0) < vd" using mx [of "''2.0.0''"] 1 
      by (auto simp: supported_below_cases keys_parse)
    ultimately show ?thesis using 1 by (simp add: findLast_keys [OF assms(1)])
  next
    case 2
    have "\<not> (2, 0, 0) < vd" using mx [of "''2.0.0''"] 2
      by (auto simp: supported_below_cases keys_parse)
    then show ?thesis using 2 by (simp add: findLast_keys [OF assms(1)])
  next
    case 3
    then show ?thesis by (simp add: findLast_keys [OF assms(1)])
  qed
qed

lemma findLast_keys_none:
  assumes "semver_parse d = Some vd" and "\<forall>k \<in> set supportedVersionsKeys. \<not> supported_below k vd"
  shows "findLast supportedVersionsKeys (\<lambda>k. semver_lt (Some k) (Some d)) = Inr None"
proof -
  from assms(2) have "\<not> (1, 0, 0) < vd" "\<not> (1, 1, 0) < vd" "\<not> (2, 0, 0) < vd"
    by (auto simp: supported_below_cases supportedVersionsKeys_def)
  then show ?thesis by (simp add: findLast_keys [OF assms(1)])
qed

lemma largest_supported_below_exists:
  assumes "supported_below k v"
  shows "\<exists>m. largest_supported_below m v"
proof -
  from assms have "(1, 0, 0) < v \<or> (1, 1, 0) < v \<or> (2, 0, 0) < v"
    unfolding supported_below_cases by blast
  then have lt: "(1, 0, 0) < v"
    using keys_ascending by (blast intro: less_trans)
  show ?thesis
  proof (cases "(2, 0, 0) < v")
    case True
    then have "largest_supported_below ''2.0.0'' v"
      by (auto simp: largest_supported_below_def supported_below_cases keys_parse)
    then show ?thesis ..
  next
    case F2: False
    show ?thesis
    proof (cases "(1, 1, 0) < v")
      case True
      with F2 have "largest_supported_below ''1.1.0'' v"
        by (auto simp: largest_supported_below_def supported_below_cases keys_parse)
      then show ?thesis ..
    next
      case False
      with F2 lt have "largest_supported_below ''1.0.0'' v"
        by (auto simp: largest_supported_below_def supported_below_cases keys_parse)
      then show ?thesis ..
    qed
  qed
qed

lemma negociateVersion_unfold:
  "negociateVersion srv c cand w =
     (case decide cand (srv (w @ [probe c cand])) of
        Finish r \<Rightarrow> (r, w @ [probe c cand])
      | Retry nxt \<Rightarrow> negociateVersion srv c nxt (w @ [probe c cand]))"
  by (subst negociateVersion.simps)
     (simp add: decide_def request_probe split: sum.split option.split bool.split)

lemma decide_Retry:
  assumes "decide cand r = Retry nxt"
  shows "(\<exists>d. semver_gt (Some d) cand = Inr False \<and>
              findLast supportedVersionsKeys (\<lambda>k. semver_lt (Some k) (Some d)) = Inr nxt)
         \<or> (findLast supportedVersionsKeys (\<lambda>k. semver_lt (Some k) cand) = Inr nxt \<and> truthy nxt)"
  using assms
  by (auto simp: decide_def split: sum.splits option.splits bool.splits if_splits)

lemma decide_Retry_decreases:
  assumes "decide cand r = Retry nxt"
  shows "steps_left nxt < steps_left cand"
  using decide_Retry [OF assms]
proof (elim disjE exE conjE)
  fix d
  assume gt: "semver_gt (Some d) cand = Inr False"
    and fl: "findLast supportedVersionsKeys (\<lambda>k. semver_lt (Some k) (Some d)) = Inr nxt"
  from semver_gt_False [OF gt] obtain vd s vc where vd: "semver_parse d = Some vd"
    and s: "cand = Some s" and vc: "semver_parse s = Some vc" and le: "vd \<le> vc"
    by blast
  show ?thesis
  proof (cases nxt)
    case None
    with s vc show ?thesis by (simp add: steps_left_def)
  next
    case (Some k)
    from findLast_Some [OF fl [unfolded Some]] have k: "k \<in> set supportedVersionsKeys"
      and lt: "semver_lt (Some k) (Some d) = Inr True" by auto
    from semver_lt_True [OF lt] vd obtain vk where vk: "semver_parse k = Some vk" "vk < vd"
      by force
    from vk(2) le have "vk < vc" by (rule less_le_trans)
    with k vk(1) vc have "steps_left (Some k) < steps_left (Some s)"
      by (intro steps_left_next)
    with Some s show ?thesis by simp
  qed
next
  assume fl: "findLast supportedVersionsKeys (\<lambda>k. semver_lt (Some k) cand) = Inr nxt"
    and "truthy nxt"
  then obtain k where nxt: "nxt = Some k" by (cases nxt) (auto simp: truthy_def)
  from findLast_Some [OF fl [unfolded nxt]] have k: "k \<in> set supportedVersionsKeys"
    and lt: "semver_lt (Some k) cand = Inr True" by auto
  from semver_lt_True [OF lt] obtain vk s vc where "semver_parse k = Some vk" "cand = Some s"
    "semver_parse s = Some vc" "vk < vc" by blast
  with k nxt show ?thesis using steps_left_next [of k vk s vc] by simp
qed

lemma world_extends: "\<exists>rest. snd (negociateVersion srv c cand w) = w @ probe c cand # rest"
proof (induction "steps_left cand" arbitrary: cand w rule: less_induct)
  case less
  show ?case
  proof (cases "decide cand (srv (w @ [probe c cand]))")
    case (Finish r)
    then show ?thesis by (subst negociateVersion_unfold) simp
  next
    case (Retry nxt)
    from less [OF decide_Retry_decreases [OF Retry], of "w @ [probe c cand]"]
    obtain rest where
      "snd (negociateVersion srv c nxt (w @ [probe c cand])) = (w @ [probe c cand]) @ probe c nxt # rest"
      by blast
    with Retry show ?thesis by (subst negociateVersion_unfold) simp
  qed
qed

lemma requests_bounded:
  "length (snd (negociateVersion srv c cand w)) \<le> length w + Suc (steps_left cand)"
proof (induction "steps_left cand" arbitrary: cand w rule: less_induct)
  case less
  show ?case
  proof (cases "decide cand (srv (w @ [probe c cand]))")
    case (Finish r)
    then show ?thesis by (subst negociateVersion_unfold) simp
  next
    case (Retry nxt)
    from decide_Retry_decreases [OF Retry] have lt: "steps_left nxt < steps_left cand" .
    from less [OF lt, of "w @ [probe c cand]"] lt Retry
    show ?thesis by (subst negociateVersion_unfold) simp
  qed
qed

lemma steps_left_key:
  assumes "k \<in> set supportedVersionsKeys"
  shows "steps_left (Some k) \<le> length supportedVersionsKeys"
proof (cases "semver_parse k")
  case None
  then show ?thesis by (simp add: steps_left_def)
next
  case (Some v)
  have "length (below v) < length (filter (\<lambda>k. True) supportedVersionsKeys)"
    unfolding below_def using assms Some
    by (intro filter_length_strict [where y = k]) auto
  with Some show ?thesis by (simp add: steps_left_def)
qed

lemma requests_bounded_from_key:
  assumes "k \<in> set supportedVersionsKeys"
  shows "length (snd (negociateVersion srv c (Some k) w)) \<le> length w + Suc (length supportedVersionsKeys)"
  using requests_bounded [of srv c "Some k" w] steps_left_key [OF assms] by simp

subsection \<open>The two ways of stepping down\<close>

lemma decide_below_detected:
  assumes "node_name doc = ''WFS_Capabilities''"
    and "attr doc ''version'' = Some d"
    and "semver_parse d = Some vd" and "semver_parse cand = Some vc" and "vd < vc"
    and "d \<notin> set supportedVersionsKeys"
  shows "decide (Some cand) (Inr doc) =
           (case findLast supportedVersionsKeys (\<lambda>k. semver_lt (Some k) (Some d)) of
              Inl e \<Rightarrow> Finish (Inl e) | Inr nxt \<Rightarrow> Retry nxt)"
proof -
  from assms have "d \<noteq> []" "semver_valid d" "d \<noteq> cand"
    by (auto simp: semver_parse_Nil semver_valid_def)
  moreover from assms have "semver_gt (Some d) (Some cand) = Inr False"
    by (simp add: semver_gt_parsed)
  moreover from assms have "\<not> in_supportedVersions d"
    by (simp add: in_supportedVersions_valid)
  ultimately show ?thesis
    using assms(1,2) by (simp add: decide_def)
qed

lemma decide_recovery:
  assumes "node_name doc \<noteq> ''WFS_Capabilities''"
  shows "decide cand (Inr doc) =
           (case findLast supportedVersionsKeys (\<lambda>k. semver_lt (Some k) cand) of
              Inl e \<Rightarrow> Finish (Inl e)
            | Inr nxt \<Rightarrow> if truthy nxt then Retry nxt else Finish (Inl RecoveryExhausted))"
  using assms by (simp add: decide_def)

lemma largest_supported_below_unique:
  assumes "largest_supported_below m v" and "largest_supported_below m' v"
  shows "m = m'"
proof -
  from assms have m: "supported_below m v" and m': "supported_below m' v"
    by (simp_all add: largest_supported_below_def)
  from assms(1) m' obtain v1 v2 where a: "semver_parse m' = Some v1" "semver_parse m = Some v2" "v1 \<le> v2"
    by (auto simp: largest_supported_below_def supported_below_def)
  from assms(2) m obtain v3 v4 where b: "semver_parse m = Some v3" "semver_parse m' = Some v4" "v3 \<le> v4"
    by (auto simp: largest_supported_below_def supported_below_def)
  from a b have "semver_parse m = semver_parse m'" by simp
  moreover from m m' have "m \<in> set supportedVersionsKeys" "m' \<in> set supportedVersionsKeys"
    by (simp_all add: supported_below_def)
  ultimately show ?thesis
    by (auto simp: supportedVersionsKeys_def keys_parse)
qed

lemma no_smaller_candidate_retries:
  assumes "node_name doc = ''WFS_Capabilities''"
    and "attr doc ''version'' = Some d"
    and "semver_parse d = Some vd" and "semver_parse cand = Some vc" and "vd < vc"
    and "d \<notin> set supportedVersionsKeys"
    and "\<forall>k \<in> set supportedVersionsKeys. \<not> supported_below k vd"
  shows "decide (Some cand) (Inr doc) = Retry None"
  using decide_below_detected [OF assms(1-6)] findLast_keys_none [OF assms(3,7)] by simp

lemma undefined_candidate_fails:
  "\<exists>e. negociateVersion srv c None w = (Inl e, w @ [probe c None])"
proof -
  have "\<exists>e. decide None r = Finish (Inl e)" for r
    by (auto simp: decide_def semver_gt_def semver_lt_def new_SemVer_def findLast_def
        supportedVersionsKeys_def semver_valid_def keys_parse
        split: sum.splits option.splits)
  then obtain e where "decide None (srv (w @ [probe c None])) = Finish (Inl e)" by blast
  then show ?thesis by (subst negociateVersion_unfold) simp
qed

text \<open>
  A version that the negotiation returns is one of the supported versions, when it starts
  from one of them.
\<close>

lemma negotiated_version_supported:
  assumes "fst (negociateVersion srv c cand w) = Inr v"
    and "cand = None \<or> (\<exists>k \<in> set supportedVersionsKeys. cand = Some k)"
  shows "v \<in> set supportedVersionsKeys"
  using assms
proof (induction "steps_left cand" arbitrary: cand w rule: less_induct)
  case less
  show ?case
  proof (cases "decide cand (srv (w @ [probe c cand]))")
    case (Finish r)
    with less.prems(1) have r: "r = Inr v" by (subst (asm) negociateVersion_unfold) simp
    from Finish [unfolded r] less.prems(2) show ?thesis
      by (auto simp: decide_def semver_valid_def in_supportedVersions_valid
          split: sum.splits option.splits if_splits bool.splits)
  next
    case (Retry nxt)
    from decide_Retry [OF Retry] have "nxt = None \<or> (\<exists>k \<in> set supportedVersionsKeys. nxt = Some k)"
      by (cases nxt) (auto dest: findLast_Some)
    moreover from Retry less.prems(1)
    have "fst (negociateVersion srv c nxt (w @ [probe c cand])) = Inr v"
      by (subst (asm) negociateVersion_unfold) simp
    ultimately show ?thesis
      using less.hyps [OF decide_Retry_decreases [OF Retry]] by blast
  qed
qed

subsection \<open>The recovery branch\<close>

text \<open>
  For a candidate that is a valid version, a response whose root element is not
  \<^verbatim>\<open>WFS_Capabilities\<close> makes the negotiation go on with the largest supported version
  strictly smaller than the candidate, and fail with \<open>RecoveryExhausted\<close> when there is
  none. A server that answers every request with an exception report receives the three
  requests for 2.0.0, 1.1.0 and 1.0.0.
\<close>

lemma recovery_mode_valid_candidate:
  assumes "srv (w @ [probe c (Some cand)]) = Inr doc"
    and "node_name doc \<noteq> ''WFS_Capabilities''"
    and "semver_parse cand = Some vc"
  shows "if \<exists>k. supported_below k vc
         then \<exists>m. largest_supported_below m vc \<and>
                negociateVersion srv c (Some cand) w
                  = negociateVersion srv c (Some m) (w @ [probe c (Some cand)])
         else negociateVersion srv c (Some cand) w
                = (Inl RecoveryExhausted, w @ [probe c (Some cand)])"
proof (cases "\<exists>k. supported_below k vc")
  case True
  then obtain m where m: "largest_supported_below m vc"
    using largest_supported_below_exists by blast
  then have "m \<in> set supportedVersionsKeys"
    by (simp add: largest_supported_below_def supported_below_def)
  then have "truthy (Some m)"
    by (auto simp: truthy_def supportedVersionsKeys_def)
  then have "decide (Some cand) (srv (w @ [probe c (Some cand)])) = Retry (Some m)"
    using assms(1) decide_recovery [OF assms(2), of "Some cand"]
      findLast_keys_largest [OF assms(3) m]
    by simp
  then have "negociateVersion srv c (Some cand) w
           = negociateVersion srv c (Some m) (w @ [probe c (Some cand)])"
    by (subst negociateVersion_unfold) simp
  with m True show ?thesis by auto
next
  case False
  then have "\<forall>k \<in> set supportedVersionsKeys. \<not> supported_below k vc" by blast
  from findLast_keys_none [OF assms(3) this]
  have "decide (Some cand) (srv (w @ [probe c (Some cand)])) = Finish (Inl RecoveryExhausted)"
    using assms(1) decide_recovery [OF assms(2), of "Some cand"]
    by (simp add: truthy_def)
  then have "negociateVersion srv c (Some cand) w
                = (Inl RecoveryExhausted, w @ [probe c (Some cand)])"
    by (subst negociateVersion_unfold) simp
  with False show ?thesis by auto
qed

lemma recovery_three_requests:
  "negociateVersion (always exception_document) example_client (Some ''2.0.0'') []
     = (Inl RecoveryExhausted,
        [probe example_client (Some ''2.0.0''), probe example_client (Some ''1.1.0''),
         probe example_client (Some ''1.0.0'')])"
proof -
  let ?srv = "always exception_document"
  let ?c = example_client
  have name: "node_name exception_document \<noteq> ''WFS_Capabilities''"
    by (simp add: exception_document_def)
  have srv: "?srv w = Inr exception_document" for w
    by (simp add: always_def)
  have l2: "largest_supported_below ''1.1.0'' (2, 0, 0)"
    by (simp add: largest_supported_below_def supported_below_def supportedVersionsKeys_def keys_parse)
  have l1: "largest_supported_below ''1.0.0'' (1, 1, 0)"
    by (simp add: largest_supported_below_def supported_below_def supportedVersionsKeys_def keys_parse)
  have l0: "\<not> (\<exists>k. supported_below k (1, 0, 0))"
    by (simp add: supported_below_cases)
  from l2 have "\<exists>k. supported_below k (2, 0, 0)"
    unfolding largest_supported_below_def by blast
  with recovery_mode_valid_candidate [where srv = ?srv and w = "[]" and c = ?c and cand = "''2.0.0''",
      OF srv name keys_parse(3)]
  obtain m where "largest_supported_below m (2, 0, 0)"
    and "negociateVersion ?srv ?c (Some ''2.0.0'') []
          = negociateVersion ?srv ?c (Some m) ([] @ [probe ?c (Some ''2.0.0'')])"
    by (auto simp only: if_True)
  with largest_supported_below_unique [OF l2] have "negociateVersion ?srv ?c (Some ''2.0.0'') []
          = negociateVersion ?srv ?c (Some ''1.1.0'') [probe ?c (Some ''2.0.0'')]"
    by simp
  also have "\<dots> = negociateVersion ?srv ?c (Some ''1.0.0'')
                     [probe ?c (Some ''2.0.0''), probe ?c (Some ''1.1.0'')]"
  proof -
    from l1 have "\<exists>k. supported_below k (1, 1, 0)"
      unfolding largest_supported_below_def by blast
    with recovery_mode_valid_candidate [where srv = ?srv and w = "[probe ?c (Some ''2.0.0'')]" and c = ?c
        and cand = "''1.1.0''", OF srv name keys_parse(2)]
    obtain m where "largest_supported_below m (1, 1, 0)"
      and "negociateVersion ?srv ?c (Some ''1.1.0'') [probe ?c (Some ''2.0.0'')]
          = negociateVersion ?srv ?c (Some m) ([probe ?c (Some ''2.0.0'')] @ [probe ?c (Some ''1.1.0'')])"
      by (auto simp only: if_True)
    with largest_supported_below_unique [OF l1] show ?thesis by simp
  qed
  also have "\<dots> = (Inl RecoveryExhausted,
        [probe ?c (Some ''2.0.0''), probe ?c (Some ''1.1.0''), probe ?c (Some ''1.0.0'')])"
    using recovery_mode_valid_candidate [where srv = ?srv
        and w = "[probe ?c (Some ''2.0.0''), probe ?c (Some ''1.1.0'')]" and c = ?c
        and cand = "''1.0.0''", OF srv name keys_parse(1)] l0
    by (simp only: if_False append.simps)
  finally show ?thesis .
qed

section \<open>Properties of the requests and of the mapper\<close>

text \<open>The properties of a spread object: the last assignment of a key wins.\<close>

lemma map_of_rev_distinct: "distinct (map fst xs) \<Longrightarrow> map_of (rev xs) = map_of xs"
  by (rule map_of_inject_set [THEN iffD2]) (simp_all add: rev_map [symmetric])

lemma obj_get_spread:
  "obj_get (obj_spread target src) k =
     (case map_of (rev src) k of None \<Rightarrow> obj_get target k | Some v \<Rightarrow> Some v)"
proof -
  have "map_of (fold (\<lambda>(k, v). AList.update k v) src target) = map_of target ++ map_of (rev src)"
    by (induction src arbitrary: target) (auto simp: update_conv' map_add_def fun_eq_iff split: option.splits)
  then show ?thesis
    by (simp add: obj_get_def obj_spread_def map_add_def split: option.split)
qed

lemma obj_get_request_query:
  "obj_get (request_query c [(''request'', r), (''version'', v)]) k =
     (if k = ''version'' then Some v
      else if k = ''request'' then Some r
      else (case map_of (rev (queryStringToAppend c)) k of
              None \<Rightarrow> if k = ''service'' then Some (JString ''WFS'') else None
            | Some x \<Rightarrow> Some x))"
  unfolding request_query_def obj_get_spread
  by (simp add: obj_get_def split: option.split)

lemma prefixes_declared_1_0_0: "prefixes_declared ns types"
  by (simp add: prefixes_declared_def ns_def types_def)

lemma types_Main:
  "map_of types ''Main'' =
     Some [([(''wfs'', ''Service'')], Field ''service'' False (Some ''Service'')),
           (featureType_selector, Field ''featureTypes'' True (Some ''FeatureType''))]"
  by (simp add: types_def featureType_selector_def)

text \<open>
  With the namespace table of the module, the mapper of the spec gives the key
  \<^verbatim>\<open>featureTypes\<close> for every document: the list of the objects built from the matches.
\<close>

lemma mapper_with_ns_featureTypes:
  "\<exists>obj. mapper_buildObject ns types xmlDoc ''Main'' = Inr (JObject obj) \<and>
         obj_get obj ''featureTypes''
           = Some (JArray (map (\<lambda>m. buildObject ns types m ''FeatureType'')
                             (select ns featureType_selector xmlDoc)))"
  unfolding mapper_buildObject_def
  by (subst buildObject.simps)
     (simp add: prefixes_declared_1_0_0 types_Main obj_get_def update_conv' del: select.simps)



text \<open>
  \<^verbatim>\<open>featureTypes()\<close> on the result of \<^verbatim>\<open>capabilities()\<close>: the empty list for an object
  whose key is an empty list or is missing, the \<^verbatim>\<open>TypeError\<close> for \<^verbatim>\<open>null\<close> and
  \<^verbatim>\<open>undefined\<close>.
\<close>

lemma featureTypes_or_empty:
  assumes "capabilities v110 v200 srv c w = (Inr (JObject obj), c', w')"
    and "obj_get obj ''featureTypes'' = Some (JArray []) \<or> obj_get obj ''featureTypes'' = None"
  shows "featureTypes v110 v200 srv c w = (Inr (JArray []), c', w')"
  using assms by (auto simp: featureTypes_def get_featureTypes_def js_truthy_def)

lemma featureTypes_of_nullish:
  assumes "capabilities v110 v200 srv c w = (Inr caps, c', w')"
    and "caps = JNull \<or> caps = JUndefined"
  shows "featureTypes v110 v200 srv c w = (Inl NullishPropertyRead, c', w')"
  using assms by (auto simp: featureTypes_def get_featureTypes_def)

text \<open>
  The constructor does reject a pinned version that is neither a supported version nor
  a property name of \<^verbatim>\<open>Object.prototype\<close>.
\<close>

lemma new_Client_rejects:
  assumes "v \<noteq> []" and "v \<notin> set supportedVersionsKeys" and "v \<notin> set objectPrototypeKeys"
    and "u \<noteq> []"
  shows "new_Client (Some u) \<lparr>opt_queryStringToAppend = q, opt_version = Some v\<rparr>
           = Inl VersionNotSupported"
  using assms by (simp add: new_Client_def truthy_def in_supportedVersions_def)

subsection \<open>Versions and queries of the examples\<close>

lemma parse_1_0_5: "semver_parse ''1.0.5'' = Some (1, 0, 5)"
  by (simp add: semver_parse_def numeric_identifier_def is_digit_def digit_val_def)

lemma parse_0_9_0: "semver_parse ''0.9.0'' = Some (0, 9, 0)"
  by (simp add: semver_parse_def numeric_identifier_def is_digit_def digit_val_def)

lemma probe_version: "obj_get (probe example_client v) ''version'' = Some (js_of_string v)"
  by (simp add: probe_def request_query_def capabilities_query_def obj_spread_def obj_get_def
      example_client_def)

section \<open>The claims\<close>

text \<open>
  C1: when the response to the probe is a capabilities document whose version is
  strictly smaller than the candidate, is not a supported version, and has no supported
  version below it, the negotiation should fail at once with \<open>NoSmallerCandidate\<close>.
  The code has no such failure: \<^verbatim>\<open>findLast\<close> returns \<^verbatim>\<open>undefined\<close>, and the function
  calls itself with it without the test that the recovery branch makes. With the
  supported versions 1.0.0, 1.1.0, 2.0.0, the candidate 2.0.0 and a server that answers
  0.9.0, a second request goes out, with the version \<^verbatim>\<open>undefined\<close>, and the negotiation
  ends with the \<^verbatim>\<open>TypeError\<close> of the semver package.
\<close>

theorem C1_no_smaller_candidate_probes_again:
  "semver_parse ''0.9.0'' = Some (0, 9, 0) \<and> semver_parse ''2.0.0'' = Some (2, 0, 0)
   \<and> ((0, 9, 0) :: semver) < (2, 0, 0)
   \<and> ''0.9.0'' \<notin> set supportedVersionsKeys
   \<and> (\<forall>k. \<not> supported_below k (0, 9, 0))
   \<and> negociateVersion (always (capabilities_document (Some ''0.9.0''))) example_client (Some ''2.0.0'') []
       = (Inl (InvalidVersion None),
          [probe example_client (Some ''2.0.0''), probe example_client None])
   \<and> obj_get (probe example_client None) ''version'' = Some JUndefined"
proof -
  let ?doc = "capabilities_document (Some ''0.9.0'')"
  have below: "\<forall>k. \<not> supported_below k (0, 9, 0)"
    by (simp add: supported_below_cases)
  have doc: "node_name ?doc = ''WFS_Capabilities''" "attr ?doc ''version'' = Some ''0.9.0''"
    by (simp_all add: capabilities_document_def attr_def)
  have lt: "((0, 9, 0) :: semver) < (2, 0, 0)" by simp
  have notin: "''0.9.0'' \<notin> set supportedVersionsKeys" by (simp add: supportedVersionsKeys_def)
  have first: "decide (Some ''2.0.0'') (Inr ?doc) = Retry None"
    using no_smaller_candidate_retries [OF doc parse_0_9_0 keys_parse(3) lt notin] below by simp
  have second: "decide None (Inr ?doc) = Finish (Inl (InvalidVersion None))"
    using doc parse_0_9_0
    by (simp add: decide_def semver_valid_def semver_gt_def new_SemVer_def)
  have "negociateVersion (always ?doc) example_client (Some ''2.0.0'') []
       = (Inl (InvalidVersion None),
          [probe example_client (Some ''2.0.0''), probe example_client None])"
    by (subst negociateVersion_unfold, simp add: always_def first)
       (subst negociateVersion_unfold, simp add: always_def second)
  with below lt notin parse_0_9_0 keys_parse(3) probe_version [of None]
  show ?thesis by (simp add: js_of_string_def)
qed

text \<open>
  C2: the negotiation should end within as many requests as there are supported
  versions. It always ends (\<open>negociateVersion\<close> is total, and \<open>requests_bounded_from_key\<close>
  bounds its requests by one more than the number of supported versions), but the step
  to the candidate \<^verbatim>\<open>undefined\<close> of C1 costs one more request: from the candidate 2.0.0,
  a server that answers two exception reports and then the version 0.9.0 receives four
  requests, with three supported versions.
\<close>

theorem C2_four_requests:
  "''2.0.0'' \<in> set supportedVersionsKeys \<and> length supportedVersionsKeys = 3
   \<and> negociateVersion (exceptions_then 2 (capabilities_document (Some ''0.9.0''))) example_client
        (Some ''2.0.0'') []
       = (Inl (InvalidVersion None),
          [probe example_client (Some ''2.0.0''), probe example_client (Some ''1.1.0''),
           probe example_client (Some ''1.0.0''), probe example_client None])"
proof -
  let ?doc = "capabilities_document (Some ''0.9.0'')"
  let ?srv = "exceptions_then 2 ?doc"
  have name: "node_name exception_document \<noteq> ''WFS_Capabilities''"
    by (simp add: exception_document_def)
  have doc: "node_name ?doc = ''WFS_Capabilities''" "attr ?doc ''version'' = Some ''0.9.0''"
    by (simp_all add: capabilities_document_def attr_def)
  have r1: "decide (Some ''2.0.0'') (Inr exception_document) = Retry (Some ''1.1.0'')"
    by (simp add: decide_recovery [OF name] findLast_keys [OF keys_parse(3)] truthy_def)
  have r2: "decide (Some ''1.1.0'') (Inr exception_document) = Retry (Some ''1.0.0'')"
    by (simp add: decide_recovery [OF name] findLast_keys [OF keys_parse(2)] truthy_def)
  have lt: "((0, 9, 0) :: semver) < (1, 0, 0)" by simp
  have notin: "''0.9.0'' \<notin> set supportedVersionsKeys" by (simp add: supportedVersionsKeys_def)
  have r3: "decide (Some ''1.0.0'') (Inr ?doc) = Retry None"
    using no_smaller_candidate_retries [OF doc parse_0_9_0 keys_parse(1) lt notin]
    by (simp add: supported_below_cases)
  have r4: "decide None (Inr ?doc) = Finish (Inl (InvalidVersion None))"
    using doc parse_0_9_0
    by (simp add: decide_def semver_valid_def semver_gt_def new_SemVer_def)
  have "negociateVersion ?srv example_client (Some ''2.0.0'') []
       = (Inl (InvalidVersion None),
          [probe example_client (Some ''2.0.0''), probe example_client (Some ''1.1.0''),
           probe example_client (Some ''1.0.0''), probe example_client None])"
    apply (subst negociateVersion_unfold, simp add: exceptions_then_def r1)
    apply (subst negociateVersion_unfold, simp add: exceptions_then_def r2)
    apply (subst negociateVersion_unfold, simp add: exceptions_then_def r3)
    apply (subst negociateVersion_unfold, simp add: exceptions_then_def r4)
    done
  then show ?thesis by (simp add: supportedVersionsKeys_def)
qed

text \<open>
  C3: when the response to the probe is a capabilities document whose version is
  strictly smaller than the candidate and is not a supported version, the next probe
  asks for the largest supported version strictly smaller than the detected version.
  With the candidate 2.0.0 and the detected version 1.0.5, the second request asks for
  1.0.0, and the negotiation succeeds with 1.0.0 after two requests when the server
  then answers 1.0.0.
\<close>

theorem C3_next_candidate_below_detected:
  assumes "srv (w @ [probe c (Some cand)]) = Inr doc"
    and "node_name doc = ''WFS_Capabilities''"
    and "attr doc ''version'' = Some d"
    and "semver_parse d = Some vd" and "semver_parse cand = Some vc" and "vd < vc"
    and "d \<notin> set supportedVersionsKeys"
    and "largest_supported_below m vd"
  shows "negociateVersion srv c (Some cand) w
           = negociateVersion srv c (Some m) (w @ [probe c (Some cand)])
         \<and> (\<exists>rest. snd (negociateVersion srv c (Some cand) w)
                     = w @ [probe c (Some cand), probe c (Some m)] @ rest)"
proof -
  have "decide (Some cand) (srv (w @ [probe c (Some cand)])) = Retry (Some m)"
    using assms(1) decide_below_detected [OF assms(2-7)] findLast_keys_largest [OF assms(4,8)]
    by simp
  then have eq: "negociateVersion srv c (Some cand) w
           = negociateVersion srv c (Some m) (w @ [probe c (Some cand)])"
    by (subst negociateVersion_unfold) simp
  from world_extends [of srv c "Some m" "w @ [probe c (Some cand)]"] eq
  show ?thesis by auto
qed

theorem C3_next_candidate_below_detected_witness:
  "negociateVersion (echo_after (capabilities_document (Some ''1.0.5''))) example_client (Some ''2.0.0'') []
     = (Inr ''1.0.0'', [probe example_client (Some ''2.0.0''), probe example_client (Some ''1.0.0'')])"
proof -
  let ?srv = "echo_after (capabilities_document (Some ''1.0.5''))"
  have lsb: "largest_supported_below ''1.0.0'' (1, 0, 5)"
    by (simp add: largest_supported_below_def supported_below_def supportedVersionsKeys_def keys_parse)
  have "((1, 0, 5) :: semver) < (2, 0, 0)" by simp
  moreover have "''1.0.5'' \<notin> set supportedVersionsKeys" by (simp add: supportedVersionsKeys_def)
  ultimately have "negociateVersion ?srv example_client (Some ''2.0.0'') []
      = negociateVersion ?srv example_client (Some ''1.0.0'') [probe example_client (Some ''2.0.0'')]"
    using C3_next_candidate_below_detected [where srv = ?srv and w = "[]" and c = example_client
        and cand = "''2.0.0''" and d = "''1.0.5''" and doc = "capabilities_document (Some ''1.0.5'')"
        and vd = "(1, 0, 5)" and vc = "(2, 0, 0)" and m = "''1.0.0''"]
      keys_parse(3) parse_1_0_5 lsb
    by (simp add: echo_after_def capabilities_document_def attr_def)
  also have "\<dots> = (Inr ''1.0.0'', [probe example_client (Some ''2.0.0''), probe example_client (Some ''1.0.0'')])"
    by (subst negociateVersion_unfold)
       (simp add: decide_def echo_after_def capabilities_document_def attr_def probe_def
          request_query_def capabilities_query_def obj_spread_def obj_get_def example_client_def
          js_of_string_def semver_valid_def keys_parse)
  finally show ?thesis .
qed

text \<open>
  C4: when the response to the probe is a capabilities document whose version is
  strictly smaller than the candidate and is one of the supported versions, the
  negotiation succeeds with the detected version, and the probe is the only request it
  has sent.
\<close>

theorem C4_supported_detected_accepted:
  assumes "srv (w @ [probe c (Some cand)]) = Inr doc"
    and "node_name doc = ''WFS_Capabilities''"
    and "attr doc ''version'' = Some d"
    and "semver_parse d = Some vd" and "semver_parse cand = Some vc" and "vd < vc"
    and "d \<in> set supportedVersionsKeys"
  shows "negociateVersion srv c (Some cand) w = (Inr d, w @ [probe c (Some cand)])"
proof -
  from assms have "d \<noteq> []" "semver_valid d" "d \<noteq> cand"
    by (auto simp: semver_parse_Nil semver_valid_def)
  moreover from assms have "semver_gt (Some d) (Some cand) = Inr False"
    by (simp add: semver_gt_parsed)
  moreover from assms have "in_supportedVersions d"
    by (simp add: in_supportedVersions_def)
  ultimately show ?thesis
    using assms(1-3) by (subst negociateVersion.simps) (simp add: request_probe)
qed

theorem C4_supported_detected_accepted_witness:
  "negociateVersion (always (capabilities_document (Some ''1.1.0''))) example_client (Some ''2.0.0'') []
     = (Inr ''1.1.0'', [probe example_client (Some ''2.0.0'')])"
proof -
  have "((1, 1, 0) :: semver) < (2, 0, 0)" by simp
  moreover have "''1.1.0'' \<in> set supportedVersionsKeys"
    by (simp add: supportedVersionsKeys_def)
  ultimately show ?thesis
    using C4_supported_detected_accepted [where srv = "always (capabilities_document (Some ''1.1.0''))"
        and w = "[]" and c = example_client and cand = "''2.0.0''" and d = "''1.1.0''"
        and doc = "capabilities_document (Some ''1.1.0'')" and vd = "(1, 1, 0)" and vc = "(2, 0, 0)"]
      keys_parse(2,3)
    by (simp add: always_def capabilities_document_def attr_def)
qed

text \<open>
  C5: when the response to the probe is a capabilities document whose version is
  strictly greater than the candidate in semantic-version order, the negotiation fails
  with \<open>NoOverlap\<close>, which carries the detected version and the candidate, and the probe
  is the only request it has sent.
\<close>

theorem C5_no_overlap:
  assumes "srv (w @ [probe c (Some cand)]) = Inr doc"
    and "node_name doc = ''WFS_Capabilities''"
    and "attr doc ''version'' = Some d"
    and "semver_parse d = Some vd" and "semver_parse cand = Some vc" and "vc < vd"
  shows "negociateVersion srv c (Some cand) w
           = (Inl (NoOverlap d (Some cand)), w @ [probe c (Some cand)])"
proof -
  from assms have "d \<noteq> []" "semver_valid d" "d \<noteq> cand"
    by (auto simp: semver_parse_Nil semver_valid_def)
  moreover from assms have "semver_gt (Some d) (Some cand) = Inr True"
    by (simp add: semver_gt_parsed)
  ultimately show ?thesis
    using assms(1-3) by (subst negociateVersion.simps) (simp add: request_probe)
qed

theorem C5_no_overlap_witness:
  "negociateVersion (always (capabilities_document (Some ''3.0.0''))) example_client (Some ''2.0.0'') []
     = (Inl (NoOverlap ''3.0.0'' (Some ''2.0.0'')), [probe example_client (Some ''2.0.0'')])"
proof -
  have "semver_parse ''3.0.0'' = Some (3, 0, 0)"
    by (simp add: semver_parse_def numeric_identifier_def is_digit_def digit_val_def)
  moreover have "((2, 0, 0) :: semver) < (3, 0, 0)" by simp
  ultimately show ?thesis
    using C5_no_overlap [where srv = "always (capabilities_document (Some ''3.0.0''))"
        and w = "[]" and c = example_client and cand = "''2.0.0''" and d = "''3.0.0''"
        and doc = "capabilities_document (Some ''3.0.0'')" and vd = "(3, 0, 0)" and vc = "(2, 0, 0)"]
      keys_parse(3)
    by (simp add: always_def capabilities_document_def attr_def)
qed

text \<open>
  C6: when the root element of the response to the probe is not \<^verbatim>\<open>WFS_Capabilities\<close>,
  the negotiation should go on with the largest supported version strictly smaller than
  the candidate, and fail with \<open>RecoveryExhausted\<close> when there is none. It does so for
  every candidate that is a version (\<open>recovery_mode_valid_candidate\<close>). The candidate
  \<^verbatim>\<open>undefined\<close> of C1 is a negotiation state too: \<^verbatim>\<open>_ensureVersion\<close> reaches it from 2.0.0
  when the server answers 0.9.0, and when the server then answers an exception report
  the recovery branch ends with the \<^verbatim>\<open>TypeError\<close> of \<^verbatim>\<open>semver.lt\<close>, not with
  \<open>RecoveryExhausted\<close>.
\<close>

theorem C6_recovery_at_undefined_candidate:
  "node_name exception_document \<noteq> ''WFS_Capabilities''
   \<and> negociateVersion
         (first_then (capabilities_document (Some ''0.9.0'')) exception_document)
         example_client None [probe example_client (Some ''2.0.0'')]
       = (Inl (InvalidVersion None),
          [probe example_client (Some ''2.0.0''), probe example_client None])
   \<and> ensureVersion
         (first_then (capabilities_document (Some ''0.9.0'')) exception_document)
         example_client []
       = (Inl (InvalidVersion None), example_client,
          [probe example_client (Some ''2.0.0''), probe example_client None])"
proof -
  let ?doc = "capabilities_document (Some ''0.9.0'')"
  let ?srv = "first_then ?doc exception_document"
  have name: "node_name exception_document \<noteq> ''WFS_Capabilities''"
    by (simp add: exception_document_def)
  have doc: "node_name ?doc = ''WFS_Capabilities''" "attr ?doc ''version'' = Some ''0.9.0''"
    by (simp_all add: capabilities_document_def attr_def)
  have lt: "((0, 9, 0) :: semver) < (2, 0, 0)" by simp
  have notin: "''0.9.0'' \<notin> set supportedVersionsKeys" by (simp add: supportedVersionsKeys_def)
  have first: "decide (Some ''2.0.0'') (Inr ?doc) = Retry None"
    using no_smaller_candidate_retries [OF doc parse_0_9_0 keys_parse(3) lt notin]
    by (simp add: supported_below_cases)
  have second: "decide None (Inr exception_document) = Finish (Inl (InvalidVersion None))"
    by (simp add: decide_recovery [OF name] findLast_def supportedVersionsKeys_def
        semver_lt_def new_SemVer_def keys_parse)
  have state: "negociateVersion ?srv example_client None [probe example_client (Some ''2.0.0'')]
       = (Inl (InvalidVersion None),
          [probe example_client (Some ''2.0.0''), probe example_client None])"
    by (subst negociateVersion_unfold) (simp add: first_then_def second)
  have "negociateVersion ?srv example_client (Some ''2.0.0'') []
       = (Inl (InvalidVersion None),
          [probe example_client (Some ''2.0.0''), probe example_client None])"
    by (subst negociateVersion_unfold) (simp add: first_then_def first state)
  then have "ensureVersion ?srv example_client []
       = (Inl (InvalidVersion None), example_client,
          [probe example_client (Some ''2.0.0''), probe example_client None])"
    by (simp add: ensureVersion_def example_client_def truthy_def supportedVersionsKeys_def)
  with name state show ?thesis by simp
qed

text \<open>
  C7: when the response to the probe has the root element \<^verbatim>\<open>WFS_Capabilities\<close> and its
  version attribute is absent or is not a valid version string, the negotiation fails
  with \<open>UnreadableVersion\<close>, and the probe is the only request it has sent.
\<close>

theorem C7_unreadable_version:
  assumes "srv (w @ [probe c cand]) = Inr doc"
    and "node_name doc = ''WFS_Capabilities''"
    and "attr doc ''version'' = None \<or> (\<exists>d. attr doc ''version'' = Some d \<and> \<not> semver_valid d)"
  shows "negociateVersion srv c cand w = (Inl UnreadableVersion, w @ [probe c cand])"
  using assms by (subst negociateVersion.simps) (auto simp: request_probe)

theorem C7_unreadable_version_witness:
  "negociateVersion (always (capabilities_document None)) example_client (Some ''2.0.0'') []
     = (Inl UnreadableVersion, [probe example_client (Some ''2.0.0'')])
   \<and> negociateVersion (always (capabilities_document (Some ''1.0''))) example_client (Some ''2.0.0'') []
     = (Inl UnreadableVersion, [probe example_client (Some ''2.0.0'')])"
proof
  show "negociateVersion (always (capabilities_document None)) example_client (Some ''2.0.0'') []
     = (Inl UnreadableVersion, [probe example_client (Some ''2.0.0'')])"
    using C7_unreadable_version [where srv = "always (capabilities_document None)" and w = "[]"
        and c = example_client and cand = "Some ''2.0.0''" and doc = "capabilities_document None"]
    by (simp add: always_def capabilities_document_def attr_def)
  have "\<not> semver_valid ''1.0''"
    by (simp add: semver_valid_def semver_parse_def)
  then show "negociateVersion (always (capabilities_document (Some ''1.0''))) example_client
       (Some ''2.0.0'') [] = (Inl UnreadableVersion, [probe example_client (Some ''2.0.0'')])"
    using C7_unreadable_version [where srv = "always (capabilities_document (Some ''1.0''))"
        and w = "[]" and c = example_client and cand = "Some ''2.0.0''"
        and doc = "capabilities_document (Some ''1.0'')"]
    by (simp add: always_def capabilities_document_def attr_def)
qed

text \<open>
  C8: the query of a request should always hold \<^verbatim>\<open>service=WFS\<close>, the operation, the
  version and every extra parameter of the caller. The spread puts \<^verbatim>\<open>service\<close> first,
  the extras next and the operation and version last, so an extra named \<^verbatim>\<open>service\<close>
  replaces \<^verbatim>\<open>WFS\<close> and an extra named \<^verbatim>\<open>request\<close> or \<^verbatim>\<open>version\<close> is overridden.
\<close>

theorem C8_request_query_counterexample:
  "obj_get (request_query
       \<lparr>url = ''http://example.org/wfs'', queryStringToAppend = [(''service'', JString ''WMS'')],
        version = None\<rparr> (capabilities_query (Some ''2.0.0''))) ''service''
     \<noteq> Some (JString ''WFS'')
   \<and> obj_get (request_query
       \<lparr>url = ''http://example.org/wfs'', queryStringToAppend = [(''version'', JString ''1.1.0'')],
        version = None\<rparr> (capabilities_query (Some ''2.0.0''))) ''version''
     \<noteq> Some (JString ''1.1.0'')"
  by (simp add: capabilities_query_def obj_get_request_query js_of_string_def)

text \<open>
  C8, as amended: every request sends the query built by the spread; it holds the
  operation and the version that the client gives; it holds \<^verbatim>\<open>service=WFS\<close> when the
  extras have no key \<^verbatim>\<open>service\<close>; and it holds every extra parameter whose key is
  neither \<^verbatim>\<open>request\<close> nor \<^verbatim>\<open>version\<close>, the extras being an object (no key twice).
\<close>

theorem C8_request_query:
  fixes c :: client and operation :: string and v :: jsval
  defines "sent \<equiv> request_query c [(''request'', JString operation), (''version'', v)]"
  shows "request srv c [(''request'', JString operation), (''version'', v)] w
           = (srv (w @ [sent]), w @ [sent])
     \<and> obj_get sent ''request'' = Some (JString operation)
     \<and> obj_get sent ''version'' = Some v
     \<and> (obj_get (queryStringToAppend c) ''service'' = None \<longrightarrow>
           obj_get sent ''service'' = Some (JString ''WFS''))
     \<and> (distinct (map fst (queryStringToAppend c)) \<longrightarrow>
          (\<forall>k x. obj_get (queryStringToAppend c) k = Some x \<and> k \<noteq> ''request'' \<and> k \<noteq> ''version''
             \<longrightarrow> obj_get sent k = Some x))"
proof (intro conjI impI allI)
  show "request srv c [(''request'', JString operation), (''version'', v)] w
           = (srv (w @ [sent]), w @ [sent])"
    by (simp add: request_def sent_def Let_def)
  show "obj_get sent ''request'' = Some (JString operation)"
    by (simp add: sent_def obj_get_request_query)
  show "obj_get sent ''version'' = Some v"
    by (simp add: sent_def obj_get_request_query)
next
  assume "obj_get (queryStringToAppend c) ''service'' = None"
  then have "''service'' \<notin> fst ` set (queryStringToAppend c)"
    by (simp add: obj_get_def map_of_eq_None_iff)
  then have "map_of (rev (queryStringToAppend c)) ''service'' = None"
    by (simp add: map_of_eq_None_iff)
  then show "obj_get sent ''service'' = Some (JString ''WFS'')"
    by (simp add: sent_def obj_get_request_query)
next
  fix k x
  assume d: "distinct (map fst (queryStringToAppend c))"
    and "obj_get (queryStringToAppend c) k = Some x \<and> k \<noteq> ''request'' \<and> k \<noteq> ''version''"
  then have "map_of (rev (queryStringToAppend c)) k = Some x" "k \<noteq> ''request''" "k \<noteq> ''version''"
    by (simp_all add: obj_get_def map_of_rev_distinct)
  then show "obj_get sent k = Some x"
    by (simp add: sent_def obj_get_request_query)
qed

theorem C8_request_query_witness:
  "obj_get (queryStringToAppend extras_client) ''service'' = None
   \<and> distinct (map fst (queryStringToAppend extras_client))
   \<and> obj_get (queryStringToAppend extras_client) ''map'' = Some (JString ''/srv/wfs.map'')
   \<and> obj_get (probe extras_client (Some ''2.0.0'')) ''service'' = Some (JString ''WFS'')
   \<and> obj_get (probe extras_client (Some ''2.0.0'')) ''request'' = Some (JString ''GetCapabilities'')
   \<and> obj_get (probe extras_client (Some ''2.0.0'')) ''version'' = Some (JString ''2.0.0'')
   \<and> obj_get (probe extras_client (Some ''2.0.0'')) ''map'' = Some (JString ''/srv/wfs.map'')"
proof -
  have a: "obj_get (queryStringToAppend extras_client) ''service'' = None"
    and b: "distinct (map fst (queryStringToAppend extras_client))"
    and c: "obj_get (queryStringToAppend extras_client) ''map'' = Some (JString ''/srv/wfs.map'')"
    by (simp_all add: extras_client_def obj_get_def)
  have p: "probe extras_client (Some ''2.0.0'')
        = request_query extras_client [(''request'', JString ''GetCapabilities''), (''version'', JString ''2.0.0'')]"
    by (simp add: probe_def capabilities_query_def js_of_string_def)
  from C8_request_query [where c = extras_client and operation = "''GetCapabilities''"
      and v = "JString ''2.0.0''", folded p] a b c
  show ?thesis by auto
qed


text \<open>
  C10: the constructor should throw for a pinned version that is not a supported
  version. The test is \<^verbatim>\<open>options.version in supportedVersions\<close>, which also holds for
  the property names that every object inherits: pinned to \<^verbatim>\<open>toString\<close>, the
  constructor returns a client with that version.
\<close>

theorem C10_inherited_key_accepted:
  "new_Client (Some ''http://example.org/wfs'')
      \<lparr>opt_queryStringToAppend = None, opt_version = Some ''toString''\<rparr>
     = Inr \<lparr>url = ''http://example.org/wfs'', queryStringToAppend = [], version = Some ''toString''\<rparr>
   \<and> ''toString'' \<notin> set supportedVersionsKeys"
  by (simp add: new_Client_def truthy_def in_supportedVersions_def objectPrototypeKeys_def
      supportedVersionsKeys_def)

end
